theory Spec2Isabelle
  imports Main "HOL-Library.Sublist"
begin

section \<open>Python strings\<close>

text \<open>
  The program is \<^verbatim>\<open>bib_to_obsidian.py\<close>. A Python \<^verbatim>\<open>str\<close> is modelled as a
  \<^typ>\<open>string\<close>, one \<^typ>\<open>char\<close> per code point. The character classes below
  (\<^verbatim>\<open>str.isspace\<close>, cased letters, case mapping) are Python's for the code points
  below 128, so the model is exact for ASCII text; a \<^typ>\<open>char\<close> from 128 on is treated
  as an uncased character that is not whitespace. The fixed non-ASCII text of the
  document template is written as the bytes of its UTF-8 encoding.
\<close>

datatype py_error = IOError | ValueError | IndexError | KeyError | LibraryError

text \<open>
  \<^verbatim>\<open>Py_UNICODE_ISSPACE\<close> on ASCII: TAB, LF, VT, FF, CR, FS, GS, RS, US and the
  space. It decides \<^verbatim>\<open>str.strip()\<close>, \<^verbatim>\<open>str.split()\<close> and the class
  \<^verbatim>\<open>\s\<close> of a \<^verbatim>\<open>str\<close> pattern alike.
\<close>

definition space_chars :: string where
  "space_chars = [CHR 0x09, CHR 0x0A, CHR 0x0B, CHR 0x0C, CHR 0x0D,
                  CHR 0x1C, CHR 0x1D, CHR 0x1E, CHR 0x1F, CHR 0x20]"

definition is_space :: "char \<Rightarrow> bool" where
  "is_space c = (c \<in> set space_chars)"

definition not_space :: "char \<Rightarrow> bool" where
  "not_space c = (\<not> is_space c)"

text \<open>\<^verbatim>\<open>s.strip()\<close>: leading and trailing whitespace removed.\<close>

definition lstrip :: "string \<Rightarrow> string" where
  "lstrip s = dropWhile is_space s"

definition rstrip :: "string \<Rightarrow> string" where
  "rstrip s = rev (dropWhile is_space (rev s))"

definition strip :: "string \<Rightarrow> string" where
  "strip s = rstrip (lstrip s)"

text \<open>
  \<^verbatim>\<open>s.split()\<close> without a separator: skip whitespace, take the word up to the next
  whitespace, repeat; no empty word is produced.
\<close>

function split_ws :: "string \<Rightarrow> string list" where
  "split_ws s =
     (case dropWhile is_space s of
        [] \<Rightarrow> []
      | c # cs \<Rightarrow> takeWhile not_space (c # cs) # split_ws (dropWhile not_space (c # cs)))"
  by pat_completeness auto
termination
proof (relation "measure length")
  show "wf (measure length)" by simp
next
  fix s :: string and c cs
  assume eq: "dropWhile is_space s = c # cs"
  have "\<not> is_space c"
    using hd_dropWhile [of is_space s] eq by simp
  then have "dropWhile not_space (c # cs) = dropWhile not_space cs"
    by (simp add: not_space_def)
  moreover have "length (dropWhile not_space cs) \<le> length cs"
    by (rule length_dropWhile_le)
  moreover have "length (c # cs) \<le> length s"
    using length_dropWhile_le [of is_space s] eq by simp
  ultimately show "(dropWhile not_space (c # cs), s) \<in> measure length"
    by simp
qed

declare split_ws.simps [simp del]

text \<open>
  \<^verbatim>\<open>s.split(sep)\<close> with a separator: cut at the leftmost occurrences, scanning from
  the left; empty pieces are kept. Python raises \<^verbatim>\<open>ValueError\<close> for the empty
  separator. \<open>cur\<close> holds the piece being read, reversed.
\<close>

function split_lit :: "string \<Rightarrow> string \<Rightarrow> string \<Rightarrow> string list" where
  "split_lit sep cur [] = [rev cur]"
| "split_lit sep cur (c # cs) =
     (if sep \<noteq> [] \<and> prefix sep (c # cs)
      then rev cur # split_lit sep [] (drop (length sep) (c # cs))
      else split_lit sep (c # cur) cs)"
  by pat_completeness auto
termination
  by (relation "measure (\<lambda>(sep, cur, s). length s)") auto

declare split_lit.simps [simp del]

definition py_split :: "string \<Rightarrow> string \<Rightarrow> py_error + string list" where
  "py_split sep s = (if sep = [] then Inl ValueError else Inr (split_lit sep [] s))"

text \<open>\<^verbatim>\<open>xs[0]\<close> raises \<^verbatim>\<open>IndexError\<close> on the empty list.\<close>

definition index0 :: "'a list \<Rightarrow> py_error + 'a" where
  "index0 xs = (case xs of [] \<Rightarrow> Inl IndexError | x # _ \<Rightarrow> Inr x)"

text \<open>\<^verbatim>\<open>re.split(r'[...]', s)\<close> for a class of single characters: one cut per
  matching character, empty pieces kept.\<close>

fun re_split_class :: "(char \<Rightarrow> bool) \<Rightarrow> string \<Rightarrow> string \<Rightarrow> string list" where
  "re_split_class P cur [] = [rev cur]"
| "re_split_class P cur (c # cs) =
     (if P c then rev cur # re_split_class P [] cs else re_split_class P (c # cur) cs)"

text \<open>\<^verbatim>\<open>s.replace(a, b)\<close> for single characters \<open>a\<close> and \<open>b\<close>.\<close>

definition replace_char :: "char \<Rightarrow> char \<Rightarrow> string \<Rightarrow> string" where
  "replace_char a b s = map (\<lambda>c. if c = a then b else c) s"

text \<open>
  \<^verbatim>\<open>s.title()\<close>: a character that follows a cased character is lower-cased, any other
  is title-cased (upper-cased, on ASCII); the cased characters are the letters.
\<close>

definition lower_letters :: string where
  "lower_letters = ''abcdefghijklmnopqrstuvwxyz''"

definition upper_letters :: string where
  "upper_letters = ''ABCDEFGHIJKLMNOPQRSTUVWXYZ''"

definition is_cased :: "char \<Rightarrow> bool" where
  "is_cased c = (c \<in> set (lower_letters @ upper_letters))"

definition to_upper :: "char \<Rightarrow> char" where
  "to_upper c = (case map_of (zip lower_letters upper_letters) c of Some u \<Rightarrow> u | None \<Rightarrow> c)"

definition to_lower :: "char \<Rightarrow> char" where
  "to_lower c = (case map_of (zip upper_letters lower_letters) c of Some l \<Rightarrow> l | None \<Rightarrow> c)"

fun title_from :: "bool \<Rightarrow> string \<Rightarrow> string" where
  "title_from previous_is_cased [] = []"
| "title_from previous_is_cased (c # cs) =
     (if previous_is_cased then to_lower c else to_upper c) # title_from (is_cased c) cs"

definition title :: "string \<Rightarrow> string" where
  "title s = title_from False s"

text \<open>
  \<^verbatim>\<open>re.sub(r'\s*\n\s*', ' ', s)\<close>. At a position the pattern matches exactly when the
  maximal whitespace run starting there holds a line feed: the first \<^verbatim>\<open>\s*\<close> backtracks
  to the last line feed of the run and the second \<^verbatim>\<open>\s*\<close> takes the rest of it, so the
  match is the whole run. The scan goes from the left and resumes after each match.
\<close>

definition ws_nl_match :: "string \<Rightarrow> nat option" where
  "ws_nl_match s =
     (let run = takeWhile is_space s
      in if CHR 0x0A \<in> set run then Some (length run) else None)"

function re_sub_ws_nl :: "string \<Rightarrow> string" where
  "re_sub_ws_nl [] = []"
| "re_sub_ws_nl (c # cs) =
     (case ws_nl_match (c # cs) of
        Some n \<Rightarrow> CHR '' '' # re_sub_ws_nl (drop n (c # cs))
      | None \<Rightarrow> c # re_sub_ws_nl cs)"
  by pat_completeness auto
termination
proof (relation "measure length")
  show "wf (measure length)" by simp
next
  fix c :: char and cs n
  assume "ws_nl_match (c # cs) = Some n"
  then have "0 < n"
    by (auto simp: ws_nl_match_def Let_def split: if_splits)
  then show "(drop n (c # cs), c # cs) \<in> measure length"
    by simp
next
  fix c :: char and cs
  show "(cs, c # cs) \<in> measure length" by simp
qed

declare re_sub_ws_nl.simps [simp del]

section \<open>The helper functions of the script\<close>

text \<open>\<^verbatim>\<open>sanitize_filename\<close>: \<^verbatim>\<open>re.sub(r'[\\/*?:"<>|]', "", name)\<close>, then
  \<^verbatim>\<open>[:150].strip()\<close>.\<close>

definition illegal_chars :: string where
  "illegal_chars = [CHR 0x5C, CHR ''/'', CHR ''*'', CHR ''?'', CHR '':'', CHR 0x22,
                    CHR ''<'', CHR ''>'', CHR ''|'']"

definition legal_char :: "char \<Rightarrow> bool" where
  "legal_char c = (c \<notin> set illegal_chars)"

definition sanitize_filename :: "string \<Rightarrow> string" where
  "sanitize_filename name = strip (take 150 (filter legal_char name))"

text \<open>\<^verbatim>\<open>clean_title\<close>: \<^verbatim>\<open>re.sub(r'[{}]', '', title)\<close>.\<close>

definition clean_title :: "string \<Rightarrow> string" where
  "clean_title t = filter (\<lambda>c. c \<noteq> CHR ''{'' \<and> c \<noteq> CHR ''}'') t"

text \<open>\<^verbatim>\<open>format_tags\<close>: the loop over \<^verbatim>\<open>kw_list\<close> appends to \<^verbatim>\<open>tags\<close>.\<close>

definition tag_separator :: "char \<Rightarrow> bool" where
  "tag_separator c = (c = CHR '';'' \<or> c = CHR '','')"

definition make_tag :: "string \<Rightarrow> string" where
  "make_tag kw = replace_char CHR ''-'' CHR ''/'' (concat (split_ws (title (strip kw))))"

fun format_tags_loop :: "string list \<Rightarrow> string list \<Rightarrow> string list" where
  "format_tags_loop tags [] = tags"
| "format_tags_loop tags (kw # kw_list) =
     (if strip kw = [] then format_tags_loop tags kw_list
      else format_tags_loop (tags @ [make_tag kw]) kw_list)"

definition format_tags :: "string \<Rightarrow> string list" where
  "format_tags keywords_str =
     (if keywords_str = [] then []
      else format_tags_loop [] (re_split_class tag_separator [] keywords_str))"

text \<open>\<^verbatim>\<open>parse_authors\<close>.\<close>

definition parse_authors :: "string \<Rightarrow> py_error + string list" where
  "parse_authors authors_str =
     (if authors_str = [] then Inr []
      else (case py_split '' and '' (re_sub_ws_nl authors_str) of
              Inl e \<Rightarrow> Inl e
            | Inr names \<Rightarrow> Inr (map strip names)))"

section \<open>Records, the environment and the world\<close>

text \<open>
  An entry is the \<^verbatim>\<open>dict\<close> that bibtexparser yields: field name to value, both
  \<^verbatim>\<open>str\<close>. \<^verbatim>\<open>entry.get(k, d)\<close> is \<open>get_or\<close>; \<^verbatim>\<open>a or b\<close> on strings is
  \<open>str_or\<close> (the empty string is false).
\<close>

type_synonym bib_entry = "string \<rightharpoonup> string"

definition get_or :: "bib_entry \<Rightarrow> string \<Rightarrow> string \<Rightarrow> string" where
  "get_or entry k d = (case entry k of None \<Rightarrow> d | Some v \<Rightarrow> v)"

definition str_or :: "string \<Rightarrow> string \<Rightarrow> string" where
  "str_or a b = (if a \<noteq> [] then a else b)"

text \<open>
  What the script does not hold itself is a parameter: \<open>parse\<close> is
  \<^verbatim>\<open>bibtexparser.load\<close> on an opened file (it reads and decodes the content, then
  parses it), \<open>dumps\<close> is \<^verbatim>\<open>bibtexparser.dumps\<close> on a database of one entry, and
  \<open>denied\<close> tells the paths the operating system refuses to open for writing or to
  create (\<^verbatim>\<open>OSError\<close>, which \<^verbatim>\<open>IOError\<close> names).
\<close>

record env =
  parse :: "string \<Rightarrow> py_error + bib_entry list"
  dumps :: "bib_entry \<Rightarrow> py_error + string"
  denied :: "string \<Rightarrow> bool"

text \<open>
  Every \<^verbatim>\<open>print\<close> is one \<open>report\<close> in the log, in program order. \<open>WriteFailed\<close>,
  \<open>FileNotFound\<close> and \<open>FileFailed\<close> go to \<^verbatim>\<open>sys.stderr\<close>, the others to
  \<^verbatim>\<open>sys.stdout\<close>.
\<close>

datatype report =
    NoteCreated string
  | WriteFailed string py_error
  | FileNotFound string
  | ProcessingFile string
  | NoEntries string
  | FileFailed string py_error
  | OutputDirCreated string
  | ProcessingComplete

record world =
  files :: "string \<rightharpoonup> string"
  dirs :: "string set"
  log :: "report list"

definition say :: "report \<Rightarrow> world \<Rightarrow> world" where
  "say r w = w\<lparr>log := log w @ [r]\<rparr>"

definition path_exists :: "world \<Rightarrow> string \<Rightarrow> bool" where
  "path_exists w p = (files w p \<noteq> None \<or> p \<in> dirs w)"

text \<open>\<^verbatim>\<open>os.path.join(a, b)\<close> of \<^verbatim>\<open>posixpath\<close>.\<close>

definition path_join :: "string \<Rightarrow> string \<Rightarrow> string" where
  "path_join a b =
     (if prefix ''/'' b then b
      else if a = [] \<or> last a = CHR ''/'' then a @ b
      else a @ ''/'' @ b)"

text \<open>
  \<^verbatim>\<open>open(path, 'w', encoding='utf-8')\<close> and \<^verbatim>\<open>f.write(content)\<close>: a path with a
  NUL character is a \<^verbatim>\<open>ValueError\<close> before the operating system is asked; a refused
  path is an \<^verbatim>\<open>OSError\<close>; otherwise the file holds the content afterwards.
\<close>

definition open_write :: "env \<Rightarrow> string \<Rightarrow> string \<Rightarrow> world \<Rightarrow> py_error + world" where
  "open_write ev path content w =
     (if CHR 0x00 \<in> set path then Inl ValueError
      else if denied ev path then Inl IOError
      else Inr (w\<lparr>files := (files w)(path \<mapsto> content)\<rparr>))"

text \<open>\<^verbatim>\<open>open(file_path, 'r', encoding='utf-8')\<close> on a path that exists: a directory
  cannot be read.\<close>

definition open_read :: "world \<Rightarrow> string \<Rightarrow> py_error + string" where
  "open_read w p = (case files w p of None \<Rightarrow> Inl IOError | Some text \<Rightarrow> Inr text)"

section \<open>Field transformation\<close>

record fields =
  bib_key :: string
  title_of :: string
  journal :: string
  doi :: string
  url :: string
  year :: string
  tags :: "string list"
  author_list :: "string list"
  abstract :: string

text \<open>\<^verbatim>\<open>entry.get('year', '') or entry.get('date', 'n.d.').split('-')[0]\<close>: the right
  operand is evaluated only when the left one is empty.\<close>

definition resolve_year :: "bib_entry \<Rightarrow> py_error + string" where
  "resolve_year entry =
     (if get_or entry ''year'' [] \<noteq> [] then Inr (get_or entry ''year'' [])
      else (case py_split ''-'' (get_or entry ''date'' ''n.d.'') of
              Inl e \<Rightarrow> Inl e
            | Inr parts \<Rightarrow> index0 parts))"

text \<open>\<^verbatim>\<open>if abstract: abstract = re.sub(r'\s*\n\s*', ' ', abstract).strip()\<close>.\<close>

definition clean_abstract :: "string \<Rightarrow> string" where
  "clean_abstract a = (if a \<noteq> [] then strip (re_sub_ws_nl a) else a)"

text \<open>The data extraction and cleaning of \<^verbatim>\<open>create_literature_note_from_entry\<close>, in
  the order of the source.\<close>

definition extract_fields :: "bib_entry \<Rightarrow> py_error + fields" where
  "extract_fields entry =
     (case resolve_year entry of
        Inl e \<Rightarrow> Inl e
      | Inr y \<Rightarrow>
          (case parse_authors (get_or entry ''author'' []) of
             Inl e \<Rightarrow> Inl e
           | Inr authors \<Rightarrow>
               Inr \<lparr> bib_key = get_or entry ''ID'' ''no_id'',
                     title_of = clean_title (get_or entry ''title'' ''No Title''),
                     journal = str_or (get_or entry ''journaltitle'' []) (get_or entry ''journal'' []),
                     doi = get_or entry ''doi'' [],
                     url = get_or entry ''url'' [],
                     year = y,
                     tags = format_tags (get_or entry ''keywords'' []),
                     author_list = authors,
                     abstract = clean_abstract (get_or entry ''abstract'' []) \<rparr>))"

section \<open>Rendering\<close>

text \<open>
  \<^verbatim>\<open>md_content\<close> grows by \<^verbatim>\<open>+=\<close>; the model keeps the pieces appended, one list
  element per \<^verbatim>\<open>+=\<close>, and the document written is their concatenation.
\<close>

definition nl :: string where
  "nl = [CHR 0x0A]"

definition dq :: string where
  "dq = [CHR 0x22]"

text \<open>\<^verbatim>\<open>if year and year != 'n.d.'\<close>.\<close>

definition year_shown :: "string \<Rightarrow> bool" where
  "year_shown y = (y \<noteq> [] \<and> y \<noteq> ''n.d.'')"

definition front_matter :: "fields \<Rightarrow> string list" where
  "front_matter f =
     [''---'' @ nl,
      ''title: '' @ dq @ title_of f @ dq @ nl]
     @ (if author_list f \<noteq> [] then (''author:'' @ nl) # map (\<lambda>author. ''  - '' @ author @ nl) (author_list f) else [])
     @ (if journal f \<noteq> [] then [''journal: '' @ dq @ journal f @ dq @ nl] else [])
     @ (if year_shown (year f) then [''year: '' @ year f @ nl] else [])
     @ (if doi f \<noteq> [] then [''doi: '' @ dq @ doi f @ dq @ nl] else [])
     @ (if url f \<noteq> [] then [''url: '' @ url f @ nl] else [])
     @ (if tags f \<noteq> [] then (''tags:'' @ nl) # map (\<lambda>tag. ''  - '' @ tag @ nl) (tags f) else [])
     @ [''---'' @ nl @ nl]"

text \<open>\<^verbatim>\<open>sep.join(xs)\<close>.\<close>

fun py_join :: "string \<Rightarrow> string list \<Rightarrow> string" where
  "py_join sep [] = []"
| "py_join sep [x] = x"
| "py_join sep (x # y # ys) = x @ sep @ py_join sep (y # ys)"

definition authors_body_formatted :: "fields \<Rightarrow> string" where
  "authors_body_formatted f = py_join '', '' (map (\<lambda>author. ''[['' @ author @ '']]'') (author_list f))"

definition writing_hand :: string where
  "writing_hand = [CHR 0xE2, CHR 0x9C, CHR 0x8D, CHR 0xEF, CHR 0xB8, CHR 0x8F]"

definition books :: string where
  "books = [CHR 0xF0, CHR 0x9F, CHR 0x93, CHR 0x9A]"

definition body :: "fields \<Rightarrow> string \<Rightarrow> string list" where
  "body f bibtex =
     [''# '' @ title_of f @ nl @ nl]
     @ (if authors_body_formatted f \<noteq> [] then [''- **Authors**: '' @ authors_body_formatted f @ nl] else [])
     @ (if journal f \<noteq> [] then [''- **Journal**: '' @ journal f @ nl] else [])
     @ (if year_shown (year f) then [''- **Year**: '' @ year f @ nl] else [])
     @ [nl @ ''## TL;DR'' @ nl @ nl @ ''> Add a one-sentence summary here.'' @ nl @ nl,
        ''## Abstract'' @ nl @ str_or (abstract f) ''No abstract available.'' @ nl @ nl,
        ''## '' @ writing_hand @ '' My Notes'' @ nl @ nl
          @ ''> Add your personal notes and thoughts here.'' @ nl @ nl @ nl,
        ''## '' @ books @ '' BibTeX'' @ nl @ ''```bibtex'' @ nl,
        bibtex @ nl @ ''```'' @ nl]"

definition file_name_of :: "fields \<Rightarrow> string" where
  "file_name_of f = sanitize_filename (title_of f) @ '' ('' @ bib_key f @ '').md''"

section \<open>Writing one note, one file, all files\<close>

text \<open>
  \<^verbatim>\<open>create_literature_note_from_entry\<close>. \<open>Inl\<close> is an exception that leaves the
  function; nothing has been written or printed by then. Only the \<^verbatim>\<open>open\<close> and the
  \<^verbatim>\<open>write\<close> are inside the \<^verbatim>\<open>try\<close>, and only \<^verbatim>\<open>IOError\<close> is caught there.
\<close>

definition create_literature_note_from_entry ::
  "env \<Rightarrow> bib_entry \<Rightarrow> string \<Rightarrow> world \<Rightarrow> py_error + world" where
  "create_literature_note_from_entry ev entry output_dir w =
     (case extract_fields entry of
        Inl e \<Rightarrow> Inl e
      | Inr f \<Rightarrow>
          (case dumps ev entry of
             Inl e \<Rightarrow> Inl e
           | Inr bibtex \<Rightarrow>
               (let md_content = concat (front_matter f @ body f bibtex);
                    output_path = path_join output_dir (file_name_of f)
                in (case open_write ev output_path md_content w of
                      Inr w' \<Rightarrow> Inr (say (NoteCreated output_path) w')
                    | Inl e \<Rightarrow>
                        if e = IOError then Inr (say (WriteFailed output_path e) w)
                        else Inl e))))"

text \<open>
  The \<^verbatim>\<open>for entry in bib_database.entries\<close> loop of \<^verbatim>\<open>process_bib_file\<close>: an
  exception leaves the loop, with the world as the entries before it left it.
\<close>

fun process_entries :: "env \<Rightarrow> string \<Rightarrow> bib_entry list \<Rightarrow> world \<Rightarrow> py_error option \<times> world" where
  "process_entries ev output_dir [] w = (None, w)"
| "process_entries ev output_dir (entry # entries) w =
     (case create_literature_note_from_entry ev entry output_dir w of
        Inl e \<Rightarrow> (Some e, w)
      | Inr w' \<Rightarrow> process_entries ev output_dir entries w')"

text \<open>
  \<^verbatim>\<open>process_bib_file\<close>: the \<^verbatim>\<open>try\<close> holds the \<^verbatim>\<open>open\<close>, the parse and the whole
  loop, and \<^verbatim>\<open>except Exception\<close> reports what leaves any of them.
\<close>

definition process_bib_file :: "env \<Rightarrow> string \<Rightarrow> string \<Rightarrow> world \<Rightarrow> world" where
  "process_bib_file ev file_path output_dir w =
     (if \<not> path_exists w file_path then say (FileNotFound file_path) w
      else
        (let w1 = say (ProcessingFile file_path) w
         in (case open_read w1 file_path of
               Inl e \<Rightarrow> say (FileFailed file_path e) w1
             | Inr text \<Rightarrow>
                 (case parse ev text of
                    Inl e \<Rightarrow> say (FileFailed file_path e) w1
                  | Inr entries \<Rightarrow>
                      if entries = [] then say (NoEntries file_path) w1
                      else
                        (case process_entries ev output_dir entries w1 of
                           (None, w2) \<Rightarrow> w2
                         | (Some e, w2) \<Rightarrow> say (FileFailed file_path e) w2)))))"

text \<open>The \<^verbatim>\<open>for bib_file_path in args.bibfiles\<close> loop of \<^verbatim>\<open>main\<close>.\<close>

fun process_files :: "env \<Rightarrow> string list \<Rightarrow> string \<Rightarrow> world \<Rightarrow> world" where
  "process_files ev [] output_dir w = w"
| "process_files ev (bib_file_path # rest) output_dir w =
     process_files ev rest output_dir (process_bib_file ev bib_file_path output_dir w)"

text \<open>\<^verbatim>\<open>os.makedirs\<close> of a path that does not exist; its \<^verbatim>\<open>OSError\<close> is not caught.\<close>

definition makedirs :: "env \<Rightarrow> string \<Rightarrow> world \<Rightarrow> py_error + world" where
  "makedirs ev d w =
     (if denied ev d then Inl IOError else Inr (w\<lparr>dirs := insert d (dirs w)\<rparr>))"

text \<open>\<^verbatim>\<open>main\<close>, from the parsed arguments on.\<close>

definition main :: "env \<Rightarrow> string list \<Rightarrow> string \<Rightarrow> world \<Rightarrow> py_error + world" where
  "main ev bibfiles output_dir w =
     (case (if \<not> path_exists w output_dir
            then (case makedirs ev output_dir w of
                    Inl e \<Rightarrow> Inl e
                  | Inr w' \<Rightarrow> Inr (say (OutputDirCreated output_dir) w'))
            else Inr w) of
        Inl e \<Rightarrow> Inl e
      | Inr w1 \<Rightarrow> Inr (say ProcessingComplete (process_files ev bibfiles output_dir w1)))"

section \<open>The specification's wording\<close>

text \<open>
  The definitions of this section follow the words of the specification, not the code;
  the theorems compare them with the functions above.
\<close>

text \<open>No leading and no trailing whitespace.\<close>

definition edge_clean :: "string \<Rightarrow> bool" where
  "edge_clean s = (case s of [] \<Rightarrow> True | c # _ \<Rightarrow> not_space c \<and> not_space (last s))"

text \<open>Splitting at every character of a class: the pieces between the separators.\<close>

fun split_on :: "(char \<Rightarrow> bool) \<Rightarrow> string \<Rightarrow> string list" where
  "split_on P [] = [[]]"
| "split_on P (c # cs) =
     (if P c then [] # split_on P cs
      else (case split_on P cs of [] \<Rightarrow> [[c]] | piece # pieces \<Rightarrow> (c # piece) # pieces))"

text \<open>
  Tag formatting in the specification's words: split on \<open>;\<close> or \<open>,\<close>, discard the empty
  and the whitespace-only segments, and of each remaining segment take the title case,
  remove all whitespace and replace every \<open>-\<close> by \<open>/\<close>.
\<close>

definition spec_tag :: "string \<Rightarrow> string" where
  "spec_tag segment = replace_char CHR ''-'' CHR ''/'' (filter not_space (title segment))"

definition spec_format_tags :: "string \<Rightarrow> string list" where
  "spec_format_tags keywords =
     map spec_tag (filter (\<lambda>segment. \<not> list_all is_space segment) (split_on tag_separator keywords))"

text \<open>The maximal runs of a string: whitespace and other characters in turn.\<close>

function runs :: "string \<Rightarrow> string list" where
  "runs [] = []"
| "runs (c # cs) =
     (if is_space c
      then takeWhile is_space (c # cs) # runs (dropWhile is_space (c # cs))
      else takeWhile not_space (c # cs) # runs (dropWhile not_space (c # cs)))"
  by pat_completeness auto
termination
proof (relation "measure length")
  show "wf (measure length)" by simp
next
  fix c :: char and cs
  assume "is_space c"
  then have "dropWhile is_space (c # cs) = dropWhile is_space cs" by simp
  then show "(dropWhile is_space (c # cs), c # cs) \<in> measure length"
    using length_dropWhile_le [of is_space cs] by simp
next
  fix c :: char and cs
  assume "\<not> is_space c"
  then have "dropWhile not_space (c # cs) = dropWhile not_space cs"
    by (simp add: not_space_def)
  then show "(dropWhile not_space (c # cs), c # cs) \<in> measure length"
    using length_dropWhile_le [of not_space cs] by simp
qed

declare runs.simps [simp del]

definition whitespace_run :: "string \<Rightarrow> bool" where
  "whitespace_run r = (case r of [] \<Rightarrow> False | c # _ \<Rightarrow> is_space c)"

text \<open>Every run of whitespace that holds a line break becomes one space.\<close>

definition collapse_line_breaks :: "string \<Rightarrow> string" where
  "collapse_line_breaks s =
     concat (map (\<lambda>r. if whitespace_run r \<and> CHR 0x0A \<in> set r then '' '' else r) (runs s))"

text \<open>Every run of whitespace, with a line break or without, becomes one space.\<close>

definition collapse_whitespace :: "string \<Rightarrow> string" where
  "collapse_whitespace s = concat (map (\<lambda>r. if whitespace_run r then '' '' else r) (runs s))"

text \<open>A front-matter with a year line.\<close>

definition has_year_line :: "string list \<Rightarrow> bool" where
  "has_year_line chunks = list_ex (prefix ''year: '') chunks"

text \<open>The path of the note of an entry, and the report of an entry whose note is
  written or refused.\<close>

definition entry_path :: "string \<Rightarrow> bib_entry \<Rightarrow> string" where
  "entry_path output_dir entry =
     (case extract_fields entry of
        Inl e \<Rightarrow> []
      | Inr f \<Rightarrow> path_join output_dir (file_name_of f))"

definition entry_report :: "env \<Rightarrow> string \<Rightarrow> bib_entry \<Rightarrow> report" where
  "entry_report ev output_dir entry =
     (if denied ev (entry_path output_dir entry)
      then WriteFailed (entry_path output_dir entry) IOError
      else NoteCreated (entry_path output_dir entry))"

text \<open>The document of an entry, and the file system after the note of an entry has
  been written or refused.\<close>

definition entry_content :: "env \<Rightarrow> bib_entry \<Rightarrow> string" where
  "entry_content ev entry =
     (case extract_fields entry of
        Inl e \<Rightarrow> []
      | Inr f \<Rightarrow>
          (case dumps ev entry of
             Inl e \<Rightarrow> []
           | Inr bibtex \<Rightarrow> concat (front_matter f @ body f bibtex)))"

definition write_note ::
  "env \<Rightarrow> string \<Rightarrow> (string \<rightharpoonup> string) \<Rightarrow> bib_entry \<Rightarrow> (string \<rightharpoonup> string)" where
  "write_note ev output_dir fs entry =
     (if denied ev (entry_path output_dir entry) then fs
      else fs(entry_path output_dir entry \<mapsto> entry_content ev entry))"

text \<open>The input files a log shows as taken up: each is reported missing or as being
  processed.\<close>

fun file_taken_up :: "report \<Rightarrow> string list" where
  "file_taken_up (FileNotFound p) = [p]"
| "file_taken_up (ProcessingFile p) = [p]"
| "file_taken_up r = []"

definition files_taken_up :: "report list \<Rightarrow> string list" where
  "files_taken_up reports = concat (map file_taken_up reports)"

section \<open>Example entries, environment and world\<close>

text \<open>
  Entries as bibtexparser yields them, with the keys \<open>ENTRYTYPE\<close> and \<open>ID\<close>: two plain
  ones, one whose title holds a NUL character and one without a title. \<open>entry_no_id\<close>
  lacks the key \<open>ID\<close>; no file gives it, it is a \<^verbatim>\<open>dict\<close> passed to
  \<^verbatim>\<open>create_literature_note_from_entry\<close> directly.
\<close>

definition entry_a :: bib_entry where
  "entry_a = [''ENTRYTYPE'' \<mapsto> ''misc'', ''ID'' \<mapsto> ''k1'', ''title'' \<mapsto> ''A'']"

definition entry_b :: bib_entry where
  "entry_b = [''ENTRYTYPE'' \<mapsto> ''misc'', ''ID'' \<mapsto> ''k2'', ''title'' \<mapsto> ''B'']"

definition entry_nul :: bib_entry where
  "entry_nul = [''ENTRYTYPE'' \<mapsto> ''misc'', ''ID'' \<mapsto> ''k0'', ''title'' \<mapsto> [CHR ''N'', CHR 0x00]]"



text \<open>The contents of three input files: two entries; two entries of which the first
  has the NUL character in its title; bytes that are not UTF-8.\<close>

definition two_bib :: string where
  "two_bib = ''@misc{k1, title = {A}}'' @ nl @ ''@misc{k2, title = {B}}'' @ nl"

definition nul_bib :: string where
  "nul_bib = ''@misc{k0, title = {N'' @ [CHR 0x00] @ ''}}'' @ nl @ ''@misc{k2, title = {B}}'' @ nl"

definition not_utf8 :: string where
  "not_utf8 = [CHR 0xFF, CHR 0xFE]"

text \<open>
  The library on these inputs. \<^verbatim>\<open>load\<close> gives the entries of the two BibTeX contents,
  raises \<^verbatim>\<open>UnicodeDecodeError\<close> (a \<^verbatim>\<open>ValueError\<close>) on the bytes that are not UTF-8 and
  finds no entry in any other content. \<^verbatim>\<open>dumps\<close> reads \<^verbatim>\<open>entry['ENTRYTYPE']\<close> and
  \<^verbatim>\<open>entry['ID']\<close> and raises \<^verbatim>\<open>KeyError\<close> when either is missing; the text it returns
  here stands for the serialized entry. The operating system refuses one path.
\<close>

definition example_env :: "string \<Rightarrow> env" where
  "example_env refused =
     \<lparr> parse = (\<lambda>content. if content = two_bib then Inr [entry_a, entry_b]
                           else if content = nul_bib then Inr [entry_nul, entry_b]
                           else if content = not_utf8 then Inl ValueError
                           else Inr []),
       dumps = (\<lambda>entry. case entry ''ENTRYTYPE'' of
                           None \<Rightarrow> Inl KeyError
                         | Some entry_type \<Rightarrow>
                             (case entry ''ID'' of
                                None \<Rightarrow> Inl KeyError
                              | Some key \<Rightarrow> Inr (''@'' @ entry_type @ ''{'' @ key @ ''}'' @ nl))),
       denied = (\<lambda>p. p = refused) \<rparr>"

definition example_world :: world where
  "example_world =
     \<lparr> files = [''two.bib'' \<mapsto> two_bib, ''nul.bib'' \<mapsto> nul_bib, ''latin1.bib'' \<mapsto> not_utf8],
       dirs = {''out''},
       log = [] \<rparr>"

section \<open>Stripping and sanitizing\<close>

lemma rstrip_split: "s = rstrip s @ rev (takeWhile is_space (rev s))"
proof -
  have "rstrip s @ rev (takeWhile is_space (rev s))
        = rev (takeWhile is_space (rev s) @ dropWhile is_space (rev s))"
    by (simp only: rstrip_def rev_append)
  also have "\<dots> = s"
    by (simp only: takeWhile_dropWhile_id rev_rev_ident)
  finally show ?thesis by simp
qed

lemma rstrip_last: "rstrip s \<noteq> [] \<Longrightarrow> \<not> is_space (last (rstrip s))"
  unfolding rstrip_def using hd_dropWhile [of is_space "rev s"] by (simp add: last_rev)

lemma rstrip_hd: "rstrip s \<noteq> [] \<Longrightarrow> hd (rstrip s) = hd s"
  using rstrip_split [of s] by (metis hd_append2)

lemma lstrip_hd: "lstrip s \<noteq> [] \<Longrightarrow> \<not> is_space (hd (lstrip s))"
  unfolding lstrip_def using hd_dropWhile [of is_space s] by simp

lemma strip_edge_clean: "edge_clean (strip s)"
proof (cases "strip s")
  case Nil
  then show ?thesis by (simp add: edge_clean_def)
next
  case (Cons c cs)
  then have ne: "rstrip (lstrip s) \<noteq> []" by (simp add: strip_def)
  then have "lstrip s \<noteq> []" by (auto simp: rstrip_def)
  then have "\<not> is_space (hd (lstrip s))" by (rule lstrip_hd)
  with rstrip_hd [OF ne] have "\<not> is_space (hd (strip s))" by (simp add: strip_def)
  moreover have "\<not> is_space (last (strip s))" using rstrip_last [OF ne] by (simp add: strip_def)
  ultimately show ?thesis using Cons by (simp add: edge_clean_def not_space_def)
qed

lemma length_strip_le: "length (strip s) \<le> length s"
proof -
  have "length (rstrip (lstrip s)) \<le> length (lstrip s)"
    unfolding rstrip_def using length_dropWhile_le [of is_space "rev (lstrip s)"] by simp
  also have "\<dots> \<le> length s" unfolding lstrip_def by (rule length_dropWhile_le)
  finally show ?thesis by (simp add: strip_def)
qed

lemma set_strip_subset: "set (strip s) \<subseteq> set s"
proof -
  have "set (rstrip t) \<subseteq> set t" for t
    unfolding rstrip_def using set_dropWhileD [of _ is_space "rev t"] by auto
  moreover have "set (lstrip s) \<subseteq> set s"
    unfolding lstrip_def using set_dropWhileD [of _ is_space s] by auto
  ultimately show ?thesis unfolding strip_def by blast
qed

lemma sanitize_subset: "set (sanitize_filename name) \<subseteq> {c \<in> set name. legal_char c}"
proof -
  have "set (sanitize_filename name) \<subseteq> set (take 150 (filter legal_char name))"
    unfolding sanitize_filename_def by (rule set_strip_subset)
  also have "\<dots> \<subseteq> set (filter legal_char name)" by (rule set_take_subset)
  finally show ?thesis by auto
qed

lemma sanitize_length: "length (sanitize_filename name) \<le> 150"
proof -
  have "length (sanitize_filename name) \<le> length (take 150 (filter legal_char name))"
    unfolding sanitize_filename_def by (rule length_strip_le)
  then show ?thesis by simp
qed

text \<open>
  C4. The name of the output file is the sanitized title, then \<open> (\<close>, the identifier and
  \<open>).md\<close>. Sanitizing removes every character of \<open>\ / * ? : " < > |\<close> and cuts what is
  left at 150 characters (and strips it), so the part before the suffix has at most 150
  characters and holds neither \<open>:\<close> nor \<open>/\<close>, whatever the title.
\<close>

theorem output_file_name_construction:
  "file_name_of f = sanitize_filename (title_of f) @ '' ('' @ bib_key f @ '').md''
   \<and> sanitize_filename t = strip (take 150 (filter legal_char t))
   \<and> set (sanitize_filename t) \<inter> set illegal_chars = {}
   \<and> length (sanitize_filename t) \<le> 150
   \<and> CHR '':'' \<notin> set (sanitize_filename t) \<and> CHR ''/'' \<notin> set (sanitize_filename t)
   \<and> sanitize_filename ''Part 1: A/B'' = ''Part 1 AB''"
proof -
  have legal: "set (sanitize_filename t) \<inter> set illegal_chars = {}"
    using sanitize_subset [of t] by (auto simp: legal_char_def)
  have "CHR '':'' \<in> set illegal_chars" and "CHR ''/'' \<in> set illegal_chars"
    by (simp_all add: illegal_chars_def)
  with legal have "CHR '':'' \<notin> set (sanitize_filename t)" and "CHR ''/'' \<notin> set (sanitize_filename t)"
    by blast+
  moreover have "sanitize_filename ''Part 1: A/B'' = ''Part 1 AB''"
    by code_simp
  ultimately show ?thesis
    using legal sanitize_length [of t] by (simp add: file_name_of_def sanitize_filename_def)
qed

text \<open>
  C10. A sanitized name has no leading and no trailing whitespace and at most 150
  characters. The strip comes after the cut at 150, so a title of more than 150
  characters can give fewer than 150: 149 letters, a space and three more letters
  give the 149 letters.
\<close>

theorem sanitize_filename_stripped_and_bounded:
  "edge_clean (sanitize_filename name)
   \<and> length (sanitize_filename name) \<le> 150
   \<and> sanitize_filename name = strip (take 150 (filter legal_char name))
   \<and> length (replicate 149 CHR ''a'' @ '' bbb'') = 153
   \<and> sanitize_filename (replicate 149 CHR ''a'' @ '' bbb'') = replicate 149 CHR ''a''"
proof -
  have "edge_clean (sanitize_filename name)"
    unfolding sanitize_filename_def by (rule strip_edge_clean)
  moreover have "sanitize_filename (replicate 149 CHR ''a'' @ '' bbb'') = replicate 149 CHR ''a''"
    by code_simp
  ultimately show ?thesis
    using sanitize_length [of name] by (simp add: sanitize_filename_def)
qed

section \<open>Tags\<close>

lemma dropWhile_all_Nil:
  assumes "\<forall>c \<in> set (dropWhile P s). P c"
  shows "dropWhile P s = []"
proof (rule ccontr)
  assume ne: "dropWhile P s \<noteq> []"
  then have "\<not> P (hd (dropWhile P s))" by (rule hd_dropWhile)
  moreover have "hd (dropWhile P s) \<in> set (dropWhile P s)" using ne by (rule hd_in_set)
  ultimately show False using assms by blast
qed

lemma strip_empty_iff: "strip s = [] \<longleftrightarrow> list_all is_space s"
proof
  assume "strip s = []"
  then have "dropWhile is_space (rev (dropWhile is_space s)) = []"
    by (simp add: strip_def rstrip_def lstrip_def)
  then have "\<forall>c \<in> set (dropWhile is_space s). is_space c"
    by (simp add: dropWhile_eq_Nil_conv)
  then have "dropWhile is_space s = []" by (rule dropWhile_all_Nil)
  then show "list_all is_space s"
    by (simp add: dropWhile_eq_Nil_conv list_all_iff)
next
  assume "list_all is_space s"
  then have "dropWhile is_space s = []"
    by (simp add: dropWhile_eq_Nil_conv list_all_iff)
  then show "strip s = []"
    unfolding strip_def rstrip_def lstrip_def by (simp del: dropWhile_eq_Nil_conv)
qed

lemma split_on_nonempty: "split_on P s \<noteq> []"
  by (induction s) (auto split: list.splits)

lemma re_split_class_split_on:
  "re_split_class P cur s = (rev cur @ hd (split_on P s)) # tl (split_on P s)"
proof (induction s arbitrary: cur)
  case Nil
  then show ?case by simp
next
  case (Cons c cs)
  then show ?case
    using split_on_nonempty [of P cs] by (auto split: list.splits)
qed

lemma re_split_class_eq: "re_split_class P [] s = split_on P s"
  using split_on_nonempty [of P s] by (simp add: re_split_class_split_on)

lemma format_tags_loop_eq:
  "format_tags_loop acc kws = acc @ map make_tag (filter (\<lambda>kw. strip kw \<noteq> []) kws)"
  by (induction kws arbitrary: acc) auto

lemma filter_not_space_all_space: "list_all is_space s \<Longrightarrow> filter not_space s = []"
  by (induction s) (auto simp: not_space_def)

lemma filter_takeWhile_space: "filter not_space (takeWhile is_space s) = []"
  by (induction s) (auto simp: not_space_def)

lemma filter_dropWhile_space: "filter not_space (dropWhile is_space s) = filter not_space s"
  by (induction s) (auto simp: not_space_def)

lemma filter_takeWhile_not_space: "filter not_space (takeWhile not_space s) = takeWhile not_space s"
  by (induction s) auto

lemma concat_split_ws: "concat (split_ws s) = filter not_space s"
proof (induction s rule: split_ws.induct)
  case (1 s)
  show ?case
  proof (cases "dropWhile is_space s")
    case Nil
    then have "list_all is_space s"
      by (simp add: dropWhile_eq_Nil_conv list_all_iff)
    then have "filter not_space s = []"
      by (rule filter_not_space_all_space)
    moreover have "split_ws s = []"
      by (subst split_ws.simps) (simp only: Nil list.case)
    ultimately show ?thesis by simp
  next
    case (Cons c cs)
    have unfold: "split_ws s = takeWhile not_space (c # cs) # split_ws (dropWhile not_space (c # cs))"
      by (subst split_ws.simps) (simp only: Cons list.case)
    have "filter not_space s = filter not_space (c # cs)"
      using filter_dropWhile_space [of s] Cons by simp
    also have "\<dots> = filter not_space (takeWhile not_space (c # cs) @ dropWhile not_space (c # cs))"
      by (simp only: takeWhile_dropWhile_id)
    also have "\<dots> = takeWhile not_space (c # cs) @ filter not_space (dropWhile not_space (c # cs))"
      by (simp only: filter_append filter_takeWhile_not_space)
    also have "\<dots> = takeWhile not_space (c # cs) @ concat (split_ws (dropWhile not_space (c # cs)))"
      using "1.IH" [OF Cons] by simp
    also have "\<dots> = concat (split_ws s)"
      by (simp only: unfold concat.simps)
    finally show ?thesis by simp
  qed
qed

lemma space_chars_fixed:
  "list_all (\<lambda>c. to_upper c = c \<and> to_lower c = c \<and> \<not> is_cased c) space_chars"
  by code_simp

lemma space_uncased: "is_space c \<Longrightarrow> \<not> is_cased c"
  using space_chars_fixed by (simp add: is_space_def list_all_iff)

lemma space_to_upper: "is_space c \<Longrightarrow> to_upper c = c"
  using space_chars_fixed by (simp add: is_space_def list_all_iff)

lemma space_to_lower: "is_space c \<Longrightarrow> to_lower c = c"
  using space_chars_fixed by (simp add: is_space_def list_all_iff)

lemma title_from_append:
  "title_from b (xs @ ys) = title_from b xs @ title_from (if xs = [] then b else is_cased (last xs)) ys"
  by (induction xs arbitrary: b) auto


lemma filter_title_all_space: "list_all is_space ws \<Longrightarrow> filter not_space (title_from b ws) = []"
  by (induction ws arbitrary: b) (auto simp: space_to_upper space_to_lower not_space_def)

lemma filter_title_lstrip:
  "filter not_space (title_from False (lstrip s)) = filter not_space (title_from False s)"
  unfolding lstrip_def
  by (induction s) (auto simp: space_to_upper space_uncased not_space_def)

lemma filter_title_rstrip:
  "filter not_space (title_from False (rstrip t)) = filter not_space (title_from False t)"
proof -
  define trail where "trail = rev (takeWhile is_space (rev t))"
  have t: "t = rstrip t @ trail"
    unfolding trail_def by (rule rstrip_split)
  have "list_all is_space trail"
    unfolding trail_def list_all_iff using set_takeWhileD [of _ is_space "rev t"] by auto
  then have "filter not_space (title_from b trail) = []" for b
    by (rule filter_title_all_space)
  then have "filter not_space (title_from False (rstrip t @ trail)) = filter not_space (title_from False (rstrip t))"
    by (simp only: title_from_append filter_append append_Nil2)
  with t show ?thesis by simp
qed

lemma make_tag_spec: "make_tag kw = spec_tag kw"
  by (simp add: make_tag_def spec_tag_def concat_split_ws title_def strip_def
        filter_title_rstrip filter_title_lstrip)



lemma format_tags_refines: "format_tags keywords = spec_format_tags keywords"
proof (cases "keywords = []")
  case True
  then show ?thesis by (simp add: format_tags_def spec_format_tags_def)
next
  case False
  have tag: "make_tag = spec_tag"
    by (rule ext) (rule make_tag_spec)
  have "format_tags keywords = format_tags_loop [] (split_on tag_separator keywords)"
    using False by (simp add: format_tags_def re_split_class_eq)
  also have "\<dots> = map spec_tag (filter (\<lambda>kw. strip kw \<noteq> []) (split_on tag_separator keywords))"
    by (simp only: format_tags_loop_eq tag append_Nil)
  also have "\<dots> = spec_format_tags keywords"
    by (simp only: spec_format_tags_def strip_empty_iff)
  finally show ?thesis .
qed

text \<open>
  C1. \<^verbatim>\<open>format_tags\<close> does what the specification says: it splits the keyword string
  on \<open>;\<close> or \<open>,\<close>, drops the empty and the whitespace-only segments and turns each
  remaining one, in the order of the source, into its title case without whitespace and
  with \<open>/\<close> for every \<open>-\<close>. The keywords \<open>a-b; c,d-e\<close> give \<open>A/B\<close>, \<open>C\<close>, \<open>D/E\<close>, and the
  empty string gives no tag.
\<close>

theorem format_tags_as_specified:
  "format_tags keywords_str = spec_format_tags keywords_str
   \<and> format_tags ''a-b; c,d-e'' = [''A/B'', ''C'', ''D/E'']
   \<and> format_tags [] = []"
proof -
  have "format_tags ''a-b; c,d-e'' = [''A/B'', ''C'', ''D/E'']"
    by code_simp
  moreover have "format_tags [] = []"
    by (simp add: format_tags_def)
  ultimately show ?thesis
    using format_tags_refines [of keywords_str] by simp
qed

section \<open>Collapsing line breaks\<close>

lemma space_not_space_iff [simp]: "not_space c \<longleftrightarrow> \<not> is_space c"
  by (simp add: not_space_def)

lemma re_sub_plain_run:
  assumes "list_all is_space r" and "CHR 0x0A \<notin> set r" and "t = [] \<or> \<not> is_space (hd t)"
  shows "re_sub_ws_nl (r @ t) = r @ re_sub_ws_nl t"
  using assms
proof (induction r)
  case Nil
  then show ?case by simp
next
  case (Cons c r)
  have tw: "takeWhile is_space (c # r @ t) = c # r"
    using Cons.prems by (cases t) (auto simp: list_all_iff takeWhile_append)
  have "ws_nl_match (c # r @ t) = None"
    using Cons.prems unfolding ws_nl_match_def tw by simp
  then have "re_sub_ws_nl (c # r @ t) = c # re_sub_ws_nl (r @ t)"
    by (simp add: re_sub_ws_nl.simps)
  with Cons show ?case by simp
qed

lemma re_sub_word:
  assumes "list_all not_space r"
  shows "re_sub_ws_nl (r @ t) = r @ re_sub_ws_nl t"
  using assms
proof (induction r)
  case Nil
  then show ?case by simp
next
  case (Cons c r)
  then have "ws_nl_match (c # r @ t) = None"
    by (simp add: ws_nl_match_def)
  then have "re_sub_ws_nl (c # r @ t) = c # re_sub_ws_nl (r @ t)"
    by (simp add: re_sub_ws_nl.simps)
  with Cons show ?case by simp
qed

lemma re_sub_break_run:
  assumes "list_all is_space r" and "CHR 0x0A \<in> set r" and "t = [] \<or> \<not> is_space (hd t)"
  shows "re_sub_ws_nl (r @ t) = CHR '' '' # re_sub_ws_nl t"
proof -
  from assms(2) obtain c r' where r: "r = c # r'" by (cases r) auto
  have tw: "takeWhile is_space (r @ t) = r"
    using assms by (cases t) (auto simp: list_all_iff takeWhile_append)
  have "ws_nl_match (r @ t) = Some (length r)"
    using assms(2) unfolding ws_nl_match_def tw by simp
  then show ?thesis
    unfolding r by (simp add: re_sub_ws_nl.simps)
qed

lemma dropWhile_starts: "dropWhile P s = [] \<or> \<not> P (hd (dropWhile P s))"
  using hd_dropWhile [of P s] by blast

lemma re_sub_collapse: "re_sub_ws_nl s = collapse_line_breaks s"
proof (induction s rule: runs.induct)
  case 1
  show ?case by (simp add: collapse_line_breaks_def runs.simps re_sub_ws_nl.simps)
next
  case (2 c cs)
  show ?case
  proof (cases "is_space c")
    case True
    define r where "r = takeWhile is_space (c # cs)"
    define t where "t = dropWhile is_space (c # cs)"
    have split: "c # cs = r @ t" by (simp add: r_def t_def)
    have rs: "list_all is_space r"
      unfolding r_def list_all_iff using set_takeWhileD [of _ is_space "c # cs"] by blast
    have rne: "whitespace_run r" using True by (simp add: r_def whitespace_run_def)
    have tst: "t = [] \<or> \<not> is_space (hd t)" unfolding t_def by (rule dropWhile_starts)
    have ih: "re_sub_ws_nl t = collapse_line_breaks t"
      using "2.IH"(1) [OF True] by (simp add: t_def)
    have runs_eq: "runs (c # cs) = r # runs t"
      using True by (simp add: runs.simps r_def t_def)
    show ?thesis
    proof (cases "CHR 0x0A \<in> set r")
      case True
      with re_sub_break_run [OF rs True tst] ih rne show ?thesis
        by (simp add: split [symmetric] collapse_line_breaks_def runs_eq)
    next
      case False
      with re_sub_plain_run [OF rs False tst] ih rne show ?thesis
        by (simp add: split [symmetric] collapse_line_breaks_def runs_eq)
    qed
  next
    case False
    define r where "r = takeWhile not_space (c # cs)"
    define t where "t = dropWhile not_space (c # cs)"
    have split: "c # cs = r @ t" by (simp add: r_def t_def)
    have rs: "list_all not_space r"
      unfolding r_def list_all_iff using set_takeWhileD [of _ not_space "c # cs"] by blast
    have rne: "\<not> whitespace_run r" using False by (simp add: r_def whitespace_run_def)
    have ih: "re_sub_ws_nl t = collapse_line_breaks t"
      using "2.IH"(2) [OF False] by (simp add: t_def)
    have runs_eq: "runs (c # cs) = r # runs t"
      using False by (simp add: runs.simps r_def t_def)
    from re_sub_word [OF rs, of t] ih rne show ?thesis
      by (simp add: split [symmetric] collapse_line_breaks_def runs_eq)
  qed
qed

section \<open>Splitting, runs and the fields of an entry\<close>

lemma split_lit_nonempty: "split_lit sep cur s \<noteq> []"
  by (induction sep cur s rule: split_lit.induct) (auto simp: split_lit.simps)

lemma py_join_Cons: "ys \<noteq> [] \<Longrightarrow> py_join sep (x # ys) = x @ sep @ py_join sep ys"
  by (cases ys) auto

lemma join_split_lit: "py_join sep (split_lit sep cur s) = rev cur @ s"
proof (induction sep cur s rule: split_lit.induct)
  case (1 sep cur)
  show ?case by (simp add: split_lit.simps)
next
  case (2 sep cur c cs)
  show ?case
  proof (cases "sep \<noteq> [] \<and> prefix sep (c # cs)")
    case True
    then obtain rest where rest: "c # cs = sep @ rest" by (auto simp: prefix_def)
    then have dr: "drop (length sep) (c # cs) = rest" by simp
    have "py_join sep (split_lit sep cur (c # cs)) = rev cur @ sep @ py_join sep (split_lit sep [] rest)"
      using True dr split_lit_nonempty [of sep "[]" rest]
      by (simp add: split_lit.simps py_join_Cons)
    also have "\<dots> = rev cur @ sep @ rest"
      using "2.IH"(1) [OF True] dr by simp
    finally show ?thesis using rest by simp
  next
    case False
    then have "split_lit sep cur (c # cs) = split_lit sep (c # cur) cs"
      by (auto simp: split_lit.simps)
    with "2.IH"(2) [OF False] show ?thesis by simp
  qed
qed

lemma hd_split_char: "hd (split_lit [d] cur s) = rev cur @ takeWhile (\<lambda>c. c \<noteq> d) s"
  by (induction s arbitrary: cur) (auto simp: split_lit.simps)

lemma runs_shape:
  "r \<in> set (runs s) \<Longrightarrow>
     (whitespace_run r \<and> list_all is_space r) \<or> (\<not> whitespace_run r \<and> list_all not_space r)"
proof (induction s rule: runs.induct)
  case 1
  then show ?case by (simp add: runs.simps)
next
  case (2 c cs)
  show ?case
  proof (cases "is_space c")
    case True
    then have "r = takeWhile is_space (c # cs) \<or> r \<in> set (runs (dropWhile is_space (c # cs)))"
      using "2.prems" by (simp add: runs.simps)
    then show ?thesis
    proof
      assume r: "r = takeWhile is_space (c # cs)"
      have "list_all is_space r"
        unfolding r list_all_iff using set_takeWhileD [of _ is_space "c # cs"] by blast
      moreover have "whitespace_run r" using True by (simp add: r whitespace_run_def)
      ultimately show ?thesis by blast
    next
      assume "r \<in> set (runs (dropWhile is_space (c # cs)))"
      then show ?thesis by (rule "2.IH"(1) [OF True])
    qed
  next
    case False
    then have "r = takeWhile not_space (c # cs) \<or> r \<in> set (runs (dropWhile not_space (c # cs)))"
      using "2.prems" by (simp add: runs.simps)
    then show ?thesis
    proof
      assume r: "r = takeWhile not_space (c # cs)"
      have "list_all not_space r"
        unfolding r list_all_iff using set_takeWhileD [of _ not_space "c # cs"] by blast
      moreover have "\<not> whitespace_run r" using False by (simp add: r whitespace_run_def)
      ultimately show ?thesis by blast
    next
      assume "r \<in> set (runs (dropWhile not_space (c # cs)))"
      then show ?thesis by (rule "2.IH"(2) [OF False])
    qed
  qed
qed

lemma line_feed_is_space: "is_space (CHR 0x0A)"
  by (simp add: is_space_def space_chars_def)

lemma collapse_no_line_feed: "CHR 0x0A \<notin> set (collapse_line_breaks s)"
proof
  define f where "f = (\<lambda>r. if whitespace_run r \<and> CHR 0x0A \<in> set r then '' '' else r)"
  assume "CHR 0x0A \<in> set (collapse_line_breaks s)"
  moreover have "collapse_line_breaks s = concat (map f (runs s))"
    by (simp add: collapse_line_breaks_def f_def)
  ultimately obtain r where r: "r \<in> set (runs s)" and mem: "CHR 0x0A \<in> set (f r)"
    by auto
  from mem have nw: "\<not> whitespace_run r" and lf: "CHR 0x0A \<in> set r"
    by (auto simp: f_def split: if_splits)
  from runs_shape [OF r] nw have "list_all not_space r" by blast
  with lf have "not_space (CHR 0x0A)" unfolding list_all_iff by blast
  with line_feed_is_space show False by (simp add: not_space_def)
qed

lemma clean_abstract_no_line_feed: "CHR 0x0A \<notin> set (clean_abstract a)"
proof (cases "a = []")
  case True
  then show ?thesis by (simp add: clean_abstract_def)
next
  case False
  then have "set (clean_abstract a) \<subseteq> set (collapse_line_breaks a)"
    using set_strip_subset [of "re_sub_ws_nl a"] by (simp add: clean_abstract_def re_sub_collapse)
  with collapse_no_line_feed [of a] show ?thesis by blast
qed

lemma clean_abstract_edge_clean: "edge_clean (clean_abstract a)"
  by (simp add: clean_abstract_def strip_edge_clean) (simp add: edge_clean_def)

lemma parse_authors_eq:
  "parse_authors (c # cs) = Inr (map strip (split_lit '' and '' [] (collapse_line_breaks (c # cs))))"
  by (simp add: parse_authors_def py_split_def re_sub_collapse)

lemma resolve_year_eq:
  "resolve_year entry =
     Inr (if get_or entry ''year'' [] \<noteq> [] then get_or entry ''year'' []
          else takeWhile (\<lambda>c. c \<noteq> CHR ''-'') (get_or entry ''date'' ''n.d.''))"
proof -
  have "index0 (split_lit ''-'' [] s) = Inr (takeWhile (\<lambda>c. c \<noteq> CHR ''-'') s)" for s
    using split_lit_nonempty [of "''-''" "[]" s] hd_split_char [of "CHR ''-''" "[]" s]
    by (cases "split_lit ''-'' [] s") (auto simp: index0_def)
  then show ?thesis
    by (simp add: resolve_year_def py_split_def)
qed

lemma parse_authors_total: "\<exists>names. parse_authors s = Inr names"
  by (simp add: parse_authors_def py_split_def)

lemma extract_fields_eq:
  "extract_fields entry =
     Inr \<lparr> bib_key = get_or entry ''ID'' ''no_id'',
           title_of = clean_title (get_or entry ''title'' ''No Title''),
           journal = str_or (get_or entry ''journaltitle'' []) (get_or entry ''journal'' []),
           doi = get_or entry ''doi'' [],
           url = get_or entry ''url'' [],
           year = (if get_or entry ''year'' [] \<noteq> [] then get_or entry ''year'' []
                   else takeWhile (\<lambda>c. c \<noteq> CHR ''-'') (get_or entry ''date'' ''n.d.'')),
           tags = format_tags (get_or entry ''keywords'' []),
           author_list = (if get_or entry ''author'' [] = [] then []
                          else map strip (split_lit '' and '' [] (re_sub_ws_nl (get_or entry ''author'' [])))),
           abstract = clean_abstract (get_or entry ''abstract'' []) \<rparr>"
  by (simp add: extract_fields_def resolve_year_eq parse_authors_def py_split_def)

section \<open>Authors and abstract\<close>

text \<open>
  C3. \<^verbatim>\<open>parse_authors\<close> gives the empty sequence for the empty string. Otherwise every
  run of whitespace that holds a line break becomes one space, the result is split on
  the literal \<open> and \<close> (the pieces joined by the literal give the string back; the
  upper-case \<open> AND \<close> does not split) and every name is stripped. The string
  \<open>Jane Doe and John Q. Smith\<close> gives \<open>Jane Doe\<close> and \<open>John Q. Smith\<close>.
\<close>

theorem parse_authors_as_specified:
  "parse_authors [] = Inr []
   \<and> parse_authors (c # cs) = Inr (map strip (split_lit '' and '' [] (collapse_line_breaks (c # cs))))
   \<and> py_join '' and '' (split_lit '' and '' [] t) = t
   \<and> (case parse_authors s of Inl e \<Rightarrow> False | Inr names \<Rightarrow> list_all edge_clean names)
   \<and> parse_authors ''Jane Doe and John Q. Smith'' = Inr [''Jane Doe'', ''John Q. Smith'']
   \<and> parse_authors (''Jane'' @ [CHR 0x0A] @ ''   Doe and John Smith '') = Inr [''Jane Doe'', ''John Smith'']
   \<and> parse_authors ''Jane Doe AND John Smith'' = Inr [''Jane Doe AND John Smith'']"
proof -
  have stripped: "(case parse_authors s of Inl e \<Rightarrow> False | Inr names \<Rightarrow> list_all edge_clean names)"
    by (simp add: parse_authors_def py_split_def list_all_iff strip_edge_clean)
  have ex1: "parse_authors ''Jane Doe and John Q. Smith'' = Inr [''Jane Doe'', ''John Q. Smith'']"
    by code_simp
  have ex2: "parse_authors (''Jane'' @ [CHR 0x0A] @ ''   Doe and John Smith '') = Inr [''Jane Doe'', ''John Smith'']"
    by code_simp
  have ex3: "parse_authors ''Jane Doe AND John Smith'' = Inr [''Jane Doe AND John Smith'']"
    by code_simp
  have "parse_authors [] = Inr []" by (simp add: parse_authors_def)
  with stripped ex1 ex2 ex3 parse_authors_eq [of c cs] join_split_lit [of "'' and ''" "[]" t]
  show ?thesis by simp
qed

text \<open>
  C6, as the specification states it: the abstract with line breaks and extra whitespace
  collapsed to single spaces. The code leaves a run of whitespace without a line break
  as it is: the abstract \<open>a  b\<close>, with two spaces, stays \<open>a  b\<close>, where collapsing the
  whitespace gives \<open>a b\<close>.
\<close>

theorem abstract_double_space_kept:
  "map_sum id abstract (extract_fields [''abstract'' \<mapsto> ''a  b'']) = Inr ''a  b''
   \<and> collapse_whitespace ''a  b'' = ''a b''
   \<and> clean_abstract ''a  b'' \<noteq> collapse_whitespace ''a  b''"
proof -
  have "clean_abstract ''a  b'' = ''a  b''" by code_simp
  moreover have "collapse_whitespace ''a  b'' = ''a b''" by code_simp
  moreover have "get_or [''abstract'' \<mapsto> ''a  b''] ''abstract'' [] = ''a  b''"
    by (simp add: get_or_def)
  ultimately show ?thesis by (simp add: extract_fields_eq)
qed

text \<open>
  C6, amended. The transformed abstract is the source abstract in which every run of
  whitespace that holds a line break has become one space, stripped of leading and
  trailing whitespace; a run of whitespace without a line break inside the text is kept.
  No line break is left, and an absent or empty abstract gives the empty string.
\<close>

theorem abstract_cleaning:
  "map_sum id abstract (extract_fields entry) = Inr (clean_abstract (get_or entry ''abstract'' []))
   \<and> clean_abstract [] = []
   \<and> clean_abstract (c # cs) = strip (collapse_line_breaks (c # cs))
   \<and> CHR 0x0A \<notin> set (clean_abstract a)
   \<and> edge_clean (clean_abstract a)
   \<and> clean_abstract ('' We show'' @ [CHR 0x0A] @ ''    that  x.'' @ [CHR 0x0A]) = ''We show that  x.''"
proof -
  have "clean_abstract ('' We show'' @ [CHR 0x0A] @ ''    that  x.'' @ [CHR 0x0A]) = ''We show that  x.''"
    by code_simp
  moreover have "clean_abstract (c # cs) = strip (collapse_line_breaks (c # cs))"
    by (simp add: clean_abstract_def re_sub_collapse)
  moreover have "clean_abstract [] = []" by (simp add: clean_abstract_def)
  ultimately show ?thesis
    using clean_abstract_no_line_feed [of a] clean_abstract_edge_clean [of a]
    by (simp add: extract_fields_eq)
qed

section \<open>Year, totality and defaults\<close>

lemma no_year_in_items: "\<not> list_ex (prefix ''year: '') (map (\<lambda>x. CHR '' '' # g x) xs)"
  by (induction xs) auto

lemma front_matter_year_line: "has_year_line (front_matter f) = year_shown (year f)"
  by (simp add: has_year_line_def front_matter_def no_year_in_items nl_def dq_def)

text \<open>
  C2, as the specification states it: the resolved year is the year field when it is
  present. An entry whose year field is present and empty, with the date \<open>2021-05-01\<close>,
  resolves to \<open>2021\<close>, not to its year field: \<^verbatim>\<open>or\<close> takes the empty string for false.
\<close>

theorem year_present_but_empty:
  "resolve_year [''year'' \<mapsto> [], ''date'' \<mapsto> ''2021-05-01''] = Inr ''2021''
   \<and> \<not> (\<forall>entry y. entry ''year'' = Some y \<longrightarrow> resolve_year entry = Inr y)"
proof -
  have r: "resolve_year [''year'' \<mapsto> [], ''date'' \<mapsto> ''2021-05-01''] = Inr ''2021''"
    by (simp add: resolve_year_eq get_or_def)
  have "\<not> (\<forall>entry y. entry ''year'' = Some y \<longrightarrow> resolve_year entry = Inr y)"
  proof
    assume "\<forall>entry y. entry ''year'' = Some y \<longrightarrow> resolve_year entry = Inr y"
    then have "resolve_year [''year'' \<mapsto> [], ''date'' \<mapsto> ''2021-05-01''] = Inr []"
      by simp
    with r show False by simp
  qed
  with r show ?thesis by simp
qed

text \<open>
  C2, amended. The resolved year is the year field when it is present and not empty;
  otherwise it is the part of the date field before the first \<open>-\<close>; when the date field
  is absent as well it is \<open>n.d.\<close>, and then the front-matter has no year line. The
  front-matter has a year line exactly when the resolved year is neither empty nor
  \<open>n.d.\<close>. The date \<open>2021-05-01\<close> without a year resolves to \<open>2021\<close>.
\<close>

theorem year_resolution:
  "(entry ''year'' = Some y \<and> y \<noteq> [] \<longrightarrow> resolve_year entry = Inr y)
   \<and> ((entry ''year'' = None \<or> entry ''year'' = Some []) \<and> entry ''date'' = Some d
        \<longrightarrow> resolve_year entry = Inr (takeWhile (\<lambda>c. c \<noteq> CHR ''-'') d))
   \<and> ((entry ''year'' = None \<or> entry ''year'' = Some []) \<and> entry ''date'' = None
        \<longrightarrow> resolve_year entry = Inr ''n.d.''
            \<and> map_sum id (\<lambda>f. has_year_line (front_matter f)) (extract_fields entry) = Inr False)
   \<and> map_sum id year (extract_fields entry) = resolve_year entry
   \<and> has_year_line (front_matter f) = year_shown (year f)"
  by (auto simp: resolve_year_eq extract_fields_eq get_or_def front_matter_year_line year_shown_def)

theorem year_resolution_witness:
  "resolve_year [''year'' \<mapsto> ''2020'', ''date'' \<mapsto> ''2021-05-01''] = Inr ''2020''
   \<and> resolve_year [''date'' \<mapsto> ''2021-05-01''] = Inr ''2021''
   \<and> resolve_year Map.empty = Inr ''n.d.''
   \<and> map_sum id (\<lambda>f. has_year_line (front_matter f)) (extract_fields Map.empty) = Inr False"
proof -
  have h1: "[''year'' \<mapsto> ''2020'', ''date'' \<mapsto> ''2021-05-01''] ''year'' = Some ''2020'' \<and> ''2020'' \<noteq> []"
    by simp
  have h2: "([''date'' \<mapsto> ''2021-05-01''] ''year'' = None \<or> [''date'' \<mapsto> ''2021-05-01''] ''year'' = Some [])
            \<and> [''date'' \<mapsto> ''2021-05-01''] ''date'' = Some ''2021-05-01''"
    by simp
  have h3: "((Map.empty :: bib_entry) ''year'' = None \<or> (Map.empty :: bib_entry) ''year'' = Some [])
            \<and> (Map.empty :: bib_entry) ''date'' = None"
    by simp
  have tw: "takeWhile (\<lambda>c. c \<noteq> CHR ''-'') ''2021-05-01'' = ''2021''" by simp
  from year_resolution [of "[''year'' \<mapsto> ''2020'', ''date'' \<mapsto> ''2021-05-01'']" "''2020''"] h1
  have c1: "resolve_year [''year'' \<mapsto> ''2020'', ''date'' \<mapsto> ''2021-05-01''] = Inr ''2020''"
    by blast
  from year_resolution [of "[''date'' \<mapsto> ''2021-05-01'']" _ "''2021-05-01''"] h2
  have "resolve_year [''date'' \<mapsto> ''2021-05-01''] = Inr (takeWhile (\<lambda>c. c \<noteq> CHR ''-'') ''2021-05-01'')"
    by blast
  then have c2: "resolve_year [''date'' \<mapsto> ''2021-05-01''] = Inr ''2021''"
    by (simp only: tw)
  from year_resolution [of "Map.empty"] h3
  have c3: "resolve_year Map.empty = Inr ''n.d.''
            \<and> map_sum id (\<lambda>f. has_year_line (front_matter f)) (extract_fields Map.empty) = Inr False"
    by blast
  from c1 c2 c3 show ?thesis by blast
qed

text \<open>
  C5, as the specification states it: every absent field degrades to the empty string or
  the empty list. The entry without any field has the title \<open>No Title\<close> and the year
  \<open>n.d.\<close>.
\<close>

theorem absent_title_not_empty:
  "map_sum id title_of (extract_fields Map.empty) = Inr ''No Title''
   \<and> map_sum id year (extract_fields Map.empty) = Inr ''n.d.''
   \<and> \<not> (\<forall>entry. entry ''title'' = None \<longrightarrow> map_sum id title_of (extract_fields entry) = Inr [])"
proof -
  have t: "map_sum id title_of (extract_fields Map.empty) = Inr ''No Title''"
    by (simp add: extract_fields_eq get_or_def clean_title_def)
  have y: "map_sum id year (extract_fields Map.empty) = Inr ''n.d.''"
    by (simp add: extract_fields_eq get_or_def)
  have "\<not> (\<forall>entry. entry ''title'' = None \<longrightarrow> map_sum id title_of (extract_fields entry) = Inr [])"
  proof
    assume "\<forall>entry. entry ''title'' = None \<longrightarrow> map_sum id title_of (extract_fields entry) = Inr []"
    then have "map_sum id title_of (extract_fields Map.empty) = Inr []" by simp
    with t show False by simp
  qed
  with t y show ?thesis by simp
qed

text \<open>
  C5, amended. The field transformation never fails, whatever the entry, and an absent
  field degrades to a default, not to an error: the empty string for journal, doi, url
  and abstract, the empty list for authors and tags, \<open>no_id\<close> for the identifier,
  \<open>No Title\<close> for the title and, when the date is absent too, \<open>n.d.\<close> for the year.
\<close>

theorem field_transformer_total:
  "\<exists>f. extract_fields entry = Inr f
     \<and> (entry ''ID'' = None \<longrightarrow> bib_key f = ''no_id'')
     \<and> (entry ''title'' = None \<longrightarrow> title_of f = ''No Title'')
     \<and> (entry ''journaltitle'' = None \<and> entry ''journal'' = None \<longrightarrow> journal f = [])
     \<and> (entry ''doi'' = None \<longrightarrow> doi f = [])
     \<and> (entry ''url'' = None \<longrightarrow> url f = [])
     \<and> (entry ''year'' = None \<and> entry ''date'' = None \<longrightarrow> year f = ''n.d.'')
     \<and> (entry ''keywords'' = None \<longrightarrow> tags f = [])
     \<and> (entry ''author'' = None \<longrightarrow> author_list f = [])
     \<and> (entry ''abstract'' = None \<longrightarrow> abstract f = [])"
  by (simp add: extract_fields_eq get_or_def clean_title_def str_or_def format_tags_def
        clean_abstract_def)

theorem field_transformer_total_witness:
  "\<exists>f. extract_fields Map.empty = Inr f
     \<and> bib_key f = ''no_id'' \<and> title_of f = ''No Title'' \<and> journal f = [] \<and> doi f = []
     \<and> url f = [] \<and> year f = ''n.d.'' \<and> tags f = [] \<and> author_list f = [] \<and> abstract f = []"
  using field_transformer_total [of Map.empty] by simp

section \<open>Notes, files and the log\<close>

lemma log_say [simp]: "log (say r w) = log w @ [r]"
  by (simp add: say_def)

lemma files_say [simp]: "files (say r w) = files w"
  by (simp add: say_def)

lemma dirs_say [simp]: "dirs (say r w) = dirs w"
  by (simp add: say_def)

lemma path_exists_say [simp]: "path_exists (say r w) p = path_exists w p"
  by (simp add: path_exists_def)

lemma extract_fields_total: "\<exists>f. extract_fields entry = Inr f"
  by (simp add: extract_fields_eq)

lemma create_note_cases:
  assumes "dumps ev entry = Inr b" and "CHR 0x00 \<notin> set (entry_path out entry)"
  shows "create_literature_note_from_entry ev entry out w =
           Inr (say (entry_report ev out entry) (w\<lparr>files := write_note ev out (files w) entry\<rparr>))"
proof -
  obtain f where f: "extract_fields entry = Inr f"
    using extract_fields_total by blast
  then have p: "entry_path out entry = path_join out (file_name_of f)"
    by (simp add: entry_path_def)
  have c: "entry_content ev entry = concat (front_matter f @ body f b)"
    by (simp add: entry_content_def f assms(1))
  show ?thesis
    using assms(2) unfolding entry_report_def write_note_def c p
    by (simp add: create_literature_note_from_entry_def f assms(1) Let_def open_write_def)
qed

lemma process_entries_isolated:
  assumes "\<forall>entry \<in> set entries. (\<exists>b. dumps ev entry = Inr b) \<and> CHR 0x00 \<notin> set (entry_path out entry)"
  shows "fst (process_entries ev out entries w) = None
         \<and> log (snd (process_entries ev out entries w)) = log w @ map (entry_report ev out) entries
         \<and> files (snd (process_entries ev out entries w)) = foldl (write_note ev out) (files w) entries
         \<and> dirs (snd (process_entries ev out entries w)) = dirs w"
  using assms
proof (induction entries arbitrary: w)
  case Nil
  then show ?case by simp
next
  case (Cons entry entries)
  from Cons.prems obtain b where b: "dumps ev entry = Inr b"
    and nul: "CHR 0x00 \<notin> set (entry_path out entry)"
    by auto
  define w' where "w' = say (entry_report ev out entry) (w\<lparr>files := write_note ev out (files w) entry\<rparr>)"
  have step: "process_entries ev out (entry # entries) w = process_entries ev out entries w'"
    by (simp add: create_note_cases [OF b nul] w'_def)
  have w': "log w' = log w @ [entry_report ev out entry]"
    "files w' = write_note ev out (files w) entry" "dirs w' = dirs w"
    by (simp_all add: w'_def)
  from Cons.prems have rest: "\<forall>entry \<in> set entries. (\<exists>b. dumps ev entry = Inr b) \<and> CHR 0x00 \<notin> set (entry_path out entry)"
    by simp
  show ?case
    unfolding step using Cons.IH [OF rest, of w'] w' by simp
qed

lemma process_entries_stops:
  "create_literature_note_from_entry ev entry out w = Inl e \<Longrightarrow>
     process_entries ev out (entry # rest) w = (Some e, w)"
  by simp

lemma files_taken_up_append [simp]:
  "files_taken_up (xs @ ys) = files_taken_up xs @ files_taken_up ys"
  by (simp add: files_taken_up_def)

lemma files_taken_up_Nil [simp]: "files_taken_up [] = []"
  by (simp add: files_taken_up_def)

lemma files_taken_up_Cons [simp]:
  "files_taken_up (r # rs) = file_taken_up r @ files_taken_up rs"
  by (simp add: files_taken_up_def)

lemma path_join_suffix: "suffix b (path_join a b)"
  by (auto simp: path_join_def suffix_def)

lemma file_name_suffix: "suffix '').md'' (file_name_of f)"
  unfolding file_name_of_def
  by (rule suffixI [of _ "sanitize_filename (title_of f) @ '' ('' @ bib_key f"]) simp

lemma note_path_suffix: "suffix '').md'' (path_join out (file_name_of f))"
  using file_name_suffix [of f] path_join_suffix [of "file_name_of f" out]
  by (rule suffix_order.trans)

lemma create_note_effect:
  assumes "create_literature_note_from_entry ev entry out w = Inr w'"
  shows "(\<exists>new. log w' = log w @ new \<and> files_taken_up new = [])
         \<and> dirs w' = dirs w
         \<and> (\<forall>q. \<not> suffix '').md'' q \<longrightarrow> files w' q = files w q)"
proof -
  obtain f where f: "extract_fields entry = Inr f"
    using extract_fields_total by blast
  from assms obtain b where b: "dumps ev entry = Inr b"
    by (cases "dumps ev entry") (auto simp: create_literature_note_from_entry_def f)
  define p where "p = path_join out (file_name_of f)"
  have sp: "suffix '').md'' p" unfolding p_def by (rule note_path_suffix)
  from assms have "w' = say (WriteFailed p IOError) w
      \<or> (\<exists>content. w' = say (NoteCreated p) (w\<lparr>files := (files w)(p \<mapsto> content)\<rparr>))"
    by (auto simp: create_literature_note_from_entry_def f b Let_def open_write_def p_def
             split: if_splits)
  then show ?thesis
  proof
    assume "w' = say (WriteFailed p IOError) w"
    then show ?thesis by simp
  next
    assume "\<exists>content. w' = say (NoteCreated p) (w\<lparr>files := (files w)(p \<mapsto> content)\<rparr>)"
    then obtain content where "w' = say (NoteCreated p) (w\<lparr>files := (files w)(p \<mapsto> content)\<rparr>)"
      by blast
    with sp show ?thesis by auto
  qed
qed

lemma process_entries_effect:
  "(\<exists>new. log (snd (process_entries ev out entries w)) = log w @ new \<and> files_taken_up new = [])
   \<and> dirs (snd (process_entries ev out entries w)) = dirs w
   \<and> (\<forall>q. \<not> suffix '').md'' q \<longrightarrow> files (snd (process_entries ev out entries w)) q = files w q)"
proof (induction entries arbitrary: w)
  case Nil
  show ?case by simp
next
  case (Cons entry entries)
  show ?case
  proof (cases "create_literature_note_from_entry ev entry out w")
    case (Inl e)
    then show ?thesis by simp
  next
    case (Inr w')
    from create_note_effect [OF Inr] obtain new1 where
      l1: "log w' = log w @ new1" "files_taken_up new1 = []"
      and d1: "dirs w' = dirs w"
      and f1: "\<forall>q. \<not> suffix '').md'' q \<longrightarrow> files w' q = files w q"
      by blast
    from Cons.IH [of w'] obtain new2 where
      l2: "log (snd (process_entries ev out entries w')) = log w' @ new2" "files_taken_up new2 = []"
      and d2: "dirs (snd (process_entries ev out entries w')) = dirs w'"
      and f2: "\<forall>q. \<not> suffix '').md'' q \<longrightarrow> files (snd (process_entries ev out entries w')) q = files w' q"
      by blast
    have "log (snd (process_entries ev out entries w')) = log w @ (new1 @ new2)"
      using l1 l2 by simp
    moreover have "files_taken_up (new1 @ new2) = []"
      using l1 l2 by simp
    ultimately have "\<exists>new. log (snd (process_entries ev out entries w')) = log w @ new \<and> files_taken_up new = []"
      by blast
    with d1 d2 f1 f2 Inr show ?thesis by simp
  qed
qed

lemma process_bib_file_effect:
  "(\<exists>new. log (process_bib_file ev p out w) = log w @ new \<and> files_taken_up new = [p])
   \<and> dirs (process_bib_file ev p out w) = dirs w
   \<and> (\<forall>q. \<not> suffix '').md'' q \<longrightarrow> files (process_bib_file ev p out w) q = files w q)"
proof (cases "path_exists w p")
  case False
  then show ?thesis by (simp add: process_bib_file_def)
next
  case True
  define w1 where "w1 = say (ProcessingFile p) w"
  show ?thesis
  proof (cases "open_read w1 p")
    case (Inl e)
    with True show ?thesis by (simp add: process_bib_file_def w1_def Let_def)
  next
    case (Inr src)
    note src = this
    show ?thesis
    proof (cases "parse ev src")
      case (Inl e)
      with True src show ?thesis by (simp add: process_bib_file_def w1_def Let_def)
    next
      case (Inr entries)
      show ?thesis
      proof (cases "entries = []")
        case True
        with \<open>path_exists w p\<close> src Inr show ?thesis
          by (simp add: process_bib_file_def w1_def Let_def)
      next
        case False
        obtain r w2 where pe: "process_entries ev out entries w1 = (r, w2)"
          by (cases "process_entries ev out entries w1") blast
        from process_entries_effect [of ev out entries w1] pe obtain new where
          l: "log w2 = log w1 @ new" "files_taken_up new = []"
          and d: "dirs w2 = dirs w1"
          and f: "\<forall>q. \<not> suffix '').md'' q \<longrightarrow> files w2 q = files w1 q"
          by auto
        have res: "process_bib_file ev p out w = (case r of None \<Rightarrow> w2 | Some e \<Rightarrow> say (FileFailed p e) w2)"
          using \<open>path_exists w p\<close> src Inr False pe
          by (simp add: process_bib_file_def w1_def Let_def)
        show ?thesis
        proof (cases r)
          case None
          have "log w2 = log w @ (ProcessingFile p # new)" using l by (simp add: w1_def)
          moreover have "files_taken_up (ProcessingFile p # new) = [p]"
            using l(2) files_taken_up_append [of "[ProcessingFile p]" new] by simp
          ultimately have "\<exists>n. log w2 = log w @ n \<and> files_taken_up n = [p]" by blast
          with None res d f show ?thesis by (simp add: w1_def)
        next
          case (Some e)
          have "log (say (FileFailed p e) w2) = log w @ (ProcessingFile p # new @ [FileFailed p e])"
            using l by (simp add: w1_def)
          moreover have "files_taken_up (ProcessingFile p # new @ [FileFailed p e]) = [p]"
            using l(2) files_taken_up_append [of "[ProcessingFile p]" "new @ [FileFailed p e]"] by simp
          ultimately have "\<exists>n. log (say (FileFailed p e) w2) = log w @ n \<and> files_taken_up n = [p]"
            by blast
          with Some res d f show ?thesis by (simp add: w1_def)
        qed
      qed
    qed
  qed
qed

lemma process_files_log:
  "\<exists>new. log (process_files ev ps out w) = log w @ new \<and> files_taken_up new = ps"
proof (induction ps arbitrary: w)
  case Nil
  show ?case by simp
next
  case (Cons p ps)
  from process_bib_file_effect [of ev p out w] obtain new1 where
    l1: "log (process_bib_file ev p out w) = log w @ new1" "files_taken_up new1 = [p]"
    by blast
  from Cons.IH [of "process_bib_file ev p out w"] obtain new2 where
    l2: "log (process_files ev ps out (process_bib_file ev p out w)) = log (process_bib_file ev p out w) @ new2"
        "files_taken_up new2 = ps"
    by blast
  have "log (process_files ev (p # ps) out w) = log w @ (new1 @ new2)"
    using l1 l2 by simp
  moreover have "files_taken_up (new1 @ new2) = p # ps"
    using l1 l2 by simp
  ultimately show ?case by blast
qed

lemma still_missing:
  assumes "\<not> path_exists w q" and "\<not> suffix '').md'' q"
  shows "\<not> path_exists (process_bib_file ev p out w) q"
  using assms process_bib_file_effect [of ev p out w]
  by (simp add: path_exists_def)

lemma foldl_write_note_other:
  "q \<notin> set (map (entry_path out) entries) \<Longrightarrow> foldl (write_note ev out) fs entries q = fs q"
  by (induction entries arbitrary: fs) (auto simp: write_note_def)




section \<open>Failure isolation and defaults in the written notes\<close>

text \<open>
  C7. The specification says that a failure while processing one record is reported, the
  record skipped and the remaining records of the file processed. The code does so for a
  write that the operating system refuses: with the note of \<open>A\<close> refused, the file
  \<open>two.bib\<close> reports the failure and still writes the note of \<open>B\<close>. It does not for
  another exception: in \<open>nul.bib\<close> the title of the first entry has a NUL character,
  \<^verbatim>\<open>open\<close> raises \<^verbatim>\<open>ValueError\<close>, the \<^verbatim>\<open>except IOError\<close> of the record does not catch
  it, the \<^verbatim>\<open>except Exception\<close> around the loop reports it for the file, and the note of
  the second entry \<open>B\<close> is never written.
\<close>

theorem other_exception_halts_the_file:
  "log (process_bib_file (example_env []) ''nul.bib'' ''out'' example_world)
     = [ProcessingFile ''nul.bib'', FileFailed ''nul.bib'' ValueError]
   \<and> files (process_bib_file (example_env []) ''nul.bib'' ''out'' example_world) ''out/B (k2).md'' = None
   \<and> log (process_bib_file (example_env ''out/A (k1).md'') ''two.bib'' ''out'' example_world)
       = [ProcessingFile ''two.bib'', WriteFailed ''out/A (k1).md'' IOError, NoteCreated ''out/B (k2).md'']
   \<and> files (process_bib_file (example_env ''out/A (k1).md'') ''two.bib'' ''out'' example_world) ''out/B (k2).md''
       = Some (entry_content (example_env ''out/A (k1).md'') entry_b)"
proof -
  have "log (process_bib_file (example_env []) ''nul.bib'' ''out'' example_world)
          = [ProcessingFile ''nul.bib'', FileFailed ''nul.bib'' ValueError]"
    by code_simp
  moreover have "files (process_bib_file (example_env []) ''nul.bib'' ''out'' example_world) ''out/B (k2).md'' = None"
    by code_simp
  moreover have "log (process_bib_file (example_env ''out/A (k1).md'') ''two.bib'' ''out'' example_world)
       = [ProcessingFile ''two.bib'', WriteFailed ''out/A (k1).md'' IOError, NoteCreated ''out/B (k2).md'']"
    by code_simp
  moreover have "files (process_bib_file (example_env ''out/A (k1).md'') ''two.bib'' ''out'' example_world) ''out/B (k2).md''
       = Some (entry_content (example_env ''out/A (k1).md'') entry_b)"
    by code_simp
  ultimately show ?thesis by blast
qed

text \<open>
  C8. A file that does not exist is reported and skipped, and a file whose parse fails is
  reported with its path and the cause; neither raises, and the loop over the input
  files takes up every file in the order given. With two input files of which the second
  does not exist (and is not the note of an entry of the first), every entry of the
  first is processed: the log holds the report of each entry in order and then the
  report that the second was not found, and the file system holds the notes of the
  entries. \<^verbatim>\<open>main\<close> returns when the output directory exists.
\<close>

theorem file_failure_isolation:
  "(\<not> path_exists w p \<longrightarrow> process_bib_file ev p out w = say (FileNotFound p) w)
   \<and> (files w p = Some src \<and> parse ev src = Inl e \<longrightarrow>
        process_bib_file ev p out w = say (FileFailed p e) (say (ProcessingFile p) w))
   \<and> take (length (log w)) (log (process_files ev ps out w)) = log w
   \<and> files_taken_up (drop (length (log w)) (log (process_files ev ps out w))) = ps
   \<and> (files w p1 = Some src \<and> parse ev src = Inr entries \<and> entries \<noteq> []
        \<and> (\<forall>entry \<in> set entries. (\<exists>b. dumps ev entry = Inr b) \<and> CHR 0x00 \<notin> set (entry_path out entry))
        \<and> \<not> path_exists w p2 \<and> p2 \<notin> set (map (entry_path out) entries) \<longrightarrow>
          log (process_files ev [p1, p2] out w)
            = log w @ ProcessingFile p1 # map (entry_report ev out) entries @ [FileNotFound p2]
          \<and> files (process_files ev [p1, p2] out w) = foldl (write_note ev out) (files w) entries
          \<and> dirs (process_files ev [p1, p2] out w) = dirs w)
   \<and> (\<not> path_exists (process_bib_file ev p1 out w) p2 \<longrightarrow>
        process_files ev [p1, p2] out w = say (FileNotFound p2) (process_bib_file ev p1 out w))
   \<and> (\<not> path_exists w p2 \<and> \<not> suffix '').md'' p2 \<longrightarrow>
        process_files ev [p1, p2] out w = say (FileNotFound p2) (process_bib_file ev p1 out w))
   \<and> (path_exists w out \<longrightarrow>
        main ev ps out w = Inr (say ProcessingComplete (process_files ev ps out w)))"
proof -
  obtain new where new: "log (process_files ev ps out w) = log w @ new" "files_taken_up new = ps"
    using process_files_log [of ev ps out w] by blast
  have a: "take (length (log w)) (log (process_files ev ps out w)) = log w"
    and b: "files_taken_up (drop (length (log w)) (log (process_files ev ps out w))) = ps"
    using new by simp_all
  have c: "process_files ev [p1, p2] out w = say (FileNotFound p2) (process_bib_file ev p1 out w)"
    if "\<not> path_exists (process_bib_file ev p1 out w) p2"
    using that by (simp add: process_bib_file_def [of ev p2])
  have d: "process_files ev [p1, p2] out w = say (FileNotFound p2) (process_bib_file ev p1 out w)"
    if "\<not> path_exists w p2" and "\<not> suffix '').md'' p2"
    using c still_missing [OF that] by blast
  have e: "process_bib_file ev p out w = say (FileFailed p e) (say (ProcessingFile p) w)"
    if "files w p = Some src" and "parse ev src = Inl e"
    using that by (simp add: process_bib_file_def path_exists_def open_read_def Let_def)
  have f: "process_bib_file ev p out w = say (FileNotFound p) w" if "\<not> path_exists w p"
    using that by (simp add: process_bib_file_def)
  have g: "main ev ps out w = Inr (say ProcessingComplete (process_files ev ps out w))"
    if "path_exists w out"
    using that by (simp add: main_def)
  have h: "log (process_files ev [p1, p2] out w)
            = log w @ ProcessingFile p1 # map (entry_report ev out) entries @ [FileNotFound p2]
          \<and> files (process_files ev [p1, p2] out w) = foldl (write_note ev out) (files w) entries
          \<and> dirs (process_files ev [p1, p2] out w) = dirs w"
    if src: "files w p1 = Some src" "parse ev src = Inr entries" "entries \<noteq> []"
      and ok: "\<forall>entry \<in> set entries. (\<exists>b. dumps ev entry = Inr b) \<and> CHR 0x00 \<notin> set (entry_path out entry)"
      and missing: "\<not> path_exists w p2" "p2 \<notin> set (map (entry_path out) entries)"
  proof -
    define w1 where "w1 = say (ProcessingFile p1) w"
    define w2 where "w2 = snd (process_entries ev out entries w1)"
    from process_entries_isolated [OF ok, of w1]
    have r: "fst (process_entries ev out entries w1) = None"
      and l2: "log w2 = log w1 @ map (entry_report ev out) entries"
      and f2: "files w2 = foldl (write_note ev out) (files w1) entries"
      and d2: "dirs w2 = dirs w1"
      unfolding w2_def by blast+
    have pe: "process_entries ev out entries w1 = (None, w2)"
      using r unfolding w2_def by (cases "process_entries ev out entries w1") simp
    have first: "process_bib_file ev p1 out w = w2"
      using src pe by (simp add: process_bib_file_def path_exists_def open_read_def Let_def w1_def)
    have "files w2 p2 = files w p2"
      unfolding f2 using foldl_write_note_other [OF missing(2)] by (simp add: w1_def)
    with missing(1) d2 have "\<not> path_exists w2 p2"
      by (simp add: path_exists_def w1_def)
    then have "process_files ev [p1, p2] out w = say (FileNotFound p2) w2"
      using c first by simp
    then show ?thesis using l2 f2 d2 by (simp add: w1_def)
  qed
  from a b c d e f g h show ?thesis by blast
qed

theorem file_failure_isolation_witness:
  "log (process_files (example_env []) [''two.bib'', ''none.bib''] ''out'' example_world)
     = [ProcessingFile ''two.bib'', NoteCreated ''out/A (k1).md'', NoteCreated ''out/B (k2).md'',
        FileNotFound ''none.bib'']
   \<and> files (process_files (example_env []) [''two.bib'', ''none.bib''] ''out'' example_world) ''out/A (k1).md''
       = Some (entry_content (example_env []) entry_a)
   \<and> files (process_files (example_env []) [''two.bib'', ''none.bib''] ''out'' example_world) ''out/B (k2).md''
       = Some (entry_content (example_env []) entry_b)
   \<and> map_option (take 25)
         (files (process_files (example_env []) [''two.bib'', ''none.bib''] ''out'' example_world) ''out/A (k1).md'')
       = Some (''---'' @ nl @ ''title: '' @ dq @ ''A'' @ dq @ nl @ ''---'' @ nl @ nl @ ''# A'' @ nl @ nl)
   \<and> process_bib_file (example_env []) ''none.bib'' ''out'' example_world
       = say (FileNotFound ''none.bib'') example_world
   \<and> process_bib_file (example_env []) ''latin1.bib'' ''out'' example_world
       = say (FileFailed ''latin1.bib'' ValueError) (say (ProcessingFile ''latin1.bib'') example_world)
   \<and> main (example_env []) [''two.bib'', ''none.bib''] ''out'' example_world
       = Inr (say ProcessingComplete
               (process_files (example_env []) [''two.bib'', ''none.bib''] ''out'' example_world))"
proof -
  define ev where "ev = example_env []"
  have pa: "entry_path ''out'' entry_a = ''out/A (k1).md''" by code_simp
  have pb: "entry_path ''out'' entry_b = ''out/B (k2).md''" by code_simp
  have da: "dumps ev entry_a = Inr (''@misc{k1}'' @ nl)"
    by (simp add: ev_def example_env_def entry_a_def)
  have db: "dumps ev entry_b = Inr (''@misc{k2}'' @ nl)"
    by (simp add: ev_def example_env_def entry_b_def)
  have ok: "\<forall>entry \<in> set [entry_a, entry_b].
              (\<exists>b. dumps ev entry = Inr b) \<and> CHR 0x00 \<notin> set (entry_path ''out'' entry)"
    by (simp add: pa pb da db)
  have src: "files example_world ''two.bib'' = Some two_bib \<and> parse ev two_bib = Inr [entry_a, entry_b]
             \<and> [entry_a, entry_b] \<noteq> []"
    by (simp add: example_world_def ev_def example_env_def)
  have missing: "\<not> path_exists example_world ''none.bib''
                 \<and> ''none.bib'' \<notin> set (map (entry_path ''out'') [entry_a, entry_b])"
    by (simp add: path_exists_def example_world_def pa pb)
  have bad: "files example_world ''latin1.bib'' = Some not_utf8 \<and> parse ev not_utf8 = Inl ValueError"
    by (simp add: example_world_def ev_def example_env_def not_utf8_def two_bib_def nul_bib_def)
  have outdir: "path_exists example_world ''out''"
    by (simp add: path_exists_def example_world_def)
  have ra: "entry_report ev ''out'' entry_a = NoteCreated ''out/A (k1).md''"
    by (simp add: entry_report_def pa ev_def example_env_def)
  have rb: "entry_report ev ''out'' entry_b = NoteCreated ''out/B (k2).md''"
    by (simp add: entry_report_def pb ev_def example_env_def)
  have l0: "log example_world = []" by (simp add: example_world_def)
  have nd: "\<not> denied ev ''out/A (k1).md''" "\<not> denied ev ''out/B (k2).md''"
    by (simp_all add: ev_def example_env_def)
  note t = file_failure_isolation [where ev = ev and out = "''out''" and w = example_world]
  from t [where ?p1.0 = "''two.bib''" and ?p2.0 = "''none.bib''" and src = two_bib
      and entries = "[entry_a, entry_b]"] src ok missing
  have l: "log (process_files ev [''two.bib'', ''none.bib''] ''out'' example_world)
            = log example_world @ ProcessingFile ''two.bib'' # map (entry_report ev ''out'') [entry_a, entry_b]
                @ [FileNotFound ''none.bib'']"
    and f: "files (process_files ev [''two.bib'', ''none.bib''] ''out'' example_world)
            = foldl (write_note ev ''out'') (files example_world) [entry_a, entry_b]"
    by blast+
  from l have c1: "log (process_files ev [''two.bib'', ''none.bib''] ''out'' example_world)
     = [ProcessingFile ''two.bib'', NoteCreated ''out/A (k1).md'', NoteCreated ''out/B (k2).md'',
        FileNotFound ''none.bib'']"
    by (simp add: l0 ra rb)
  from f have c2: "files (process_files ev [''two.bib'', ''none.bib''] ''out'' example_world) ''out/A (k1).md''
       = Some (entry_content ev entry_a)"
    and c3: "files (process_files ev [''two.bib'', ''none.bib''] ''out'' example_world) ''out/B (k2).md''
       = Some (entry_content ev entry_b)"
    by (simp_all add: write_note_def pa pb nd)
  from t [where p = "''none.bib''"] missing
  have c4: "process_bib_file ev ''none.bib'' ''out'' example_world = say (FileNotFound ''none.bib'') example_world"
    by blast
  from t [where p = "''latin1.bib''" and src = not_utf8 and e = ValueError] bad
  have c5: "process_bib_file ev ''latin1.bib'' ''out'' example_world
       = say (FileFailed ''latin1.bib'' ValueError) (say (ProcessingFile ''latin1.bib'') example_world)"
    by blast
  from t [where ps = "[''two.bib'', ''none.bib'']"] outdir
  have c6: "main ev [''two.bib'', ''none.bib''] ''out'' example_world
       = Inr (say ProcessingComplete (process_files ev [''two.bib'', ''none.bib''] ''out'' example_world))"
    by blast
  have c7: "map_option (take 25)
         (files (process_files (example_env []) [''two.bib'', ''none.bib''] ''out'' example_world) ''out/A (k1).md'')
       = Some (''---'' @ nl @ ''title: '' @ dq @ ''A'' @ dq @ nl @ ''---'' @ nl @ nl @ ''# A'' @ nl @ nl)"
    by code_simp
  from c1 c2 c3 c4 c5 c6 c7 show ?thesis unfolding ev_def by blast
qed



end
